theory Spec2Isabelle
  imports Complex_Main "HOL-Library.Sublist" "HOL-Library.Multiset"
    "HOL-Library.Char_ord" "HOL-Library.List_Lexorder"
begin

section \<open>Task entity\<close>

text \<open>
  Modelled from the spec: the module \<^verbatim>\<open>models/task\<close> (the \<^verbatim>\<open>TaskStatus\<close> enum and the
  \<^verbatim>\<open>Task\<close>, \<^verbatim>\<open>CreateTaskRequest\<close> and \<^verbatim>\<open>UpdateTaskRequest\<close> interfaces) is imported by
  every source file but is not among them. The spec gives the status as one of
  \<^verbatim>\<open>PENDING\<close>, \<^verbatim>\<open>IN_PROGRESS\<close>, \<^verbatim>\<open>COMPLETED\<close> and the task as the six fields below;
  the validation schemas list the same three status strings. A \<^verbatim>\<open>Date\<close> is its
  \<^verbatim>\<open>getTime()\<close> value, an integer number of milliseconds. A string is the list of
  its characters.
\<close>

datatype TaskStatus = PENDING | IN_PROGRESS | COMPLETED

fun statusString :: "TaskStatus \<Rightarrow> string" where
  "statusString PENDING = ''PENDING''"
| "statusString IN_PROGRESS = ''IN_PROGRESS''"
| "statusString COMPLETED = ''COMPLETED''"

record Task =
  id_f :: string
  title :: string
  description :: string
  status :: TaskStatus
  createdAt :: int
  updatedAt :: int

text \<open>
  \<^verbatim>\<open>Partial<Task>\<close>: every key of a task may be present or absent in a patch.
\<close>

record PartialTask =
  p_id :: "string option"
  p_title :: "string option"
  p_description :: "string option"
  p_status :: "TaskStatus option"
  p_createdAt :: "int option"
  p_updatedAt :: "int option"

section \<open>JavaScript library functions used by the store\<close>

text \<open>
  \<^verbatim>\<open>toLowerCase\<close> and \<^verbatim>\<open>toUpperCase\<close> as they act on ASCII strings: the letters \<^verbatim>\<open>A\<close> to \<^verbatim>\<open>Z\<close> are the
  codes 65 to 90, the letters \<^verbatim>\<open>a\<close> to \<^verbatim>\<open>z\<close> the codes 97 to 122; every other
  character is kept. The list operation below takes \<^verbatim>\<open>toLowerCase\<close> as a parameter, so
  that what is proved of it holds for the function of the JavaScript library on all
  its strings; \<open>toLowerCase\<close> is that function on the strings of the examples.
\<close>

definition lowerCode :: "nat \<Rightarrow> nat" where
  "lowerCode n = (if 65 \<le> n \<and> n \<le> 90 then n + 32 else n)"

definition upperCode :: "nat \<Rightarrow> nat" where
  "upperCode n = (if 97 \<le> n \<and> n \<le> 122 then n - 32 else n)"

definition lowerChar :: "char \<Rightarrow> char" where
  "lowerChar c = char_of (lowerCode (of_char c))"

definition upperChar :: "char \<Rightarrow> char" where
  "upperChar c = char_of (upperCode (of_char c))"

definition toLowerCase :: "string \<Rightarrow> string" where
  "toLowerCase s = map lowerChar s"

definition toUpperCase :: "string \<Rightarrow> string" where
  "toUpperCase s = map upperChar s"

text \<open>\<^verbatim>\<open>String.prototype.includes\<close>: the argument occurs as a contiguous run.\<close>

fun startsWith :: "string \<Rightarrow> string \<Rightarrow> bool" where
  "startsWith s [] = True"
| "startsWith [] (q # qs) = False"
| "startsWith (c # cs) (q # qs) = (c = q \<and> startsWith cs qs)"

fun includesStr :: "string \<Rightarrow> string \<Rightarrow> bool" where
  "includesStr [] q = (q = [])"
| "includesStr (c # cs) q = (startsWith (c # cs) q \<or> includesStr cs q)"

text \<open>
  \<^verbatim>\<open>Array.prototype.slice(start, end)\<close> on integer arguments: a negative index counts
  from the end of the array, and both indices are clamped to the array.
\<close>

definition relIndex :: "nat \<Rightarrow> int \<Rightarrow> nat" where
  "relIndex len i = (if i < 0 then nat (max (int len + i) 0) else min (nat i) len)"

definition slice :: "'a list \<Rightarrow> int \<Rightarrow> int \<Rightarrow> 'a list" where
  "slice xs start end_i =
     (let k = relIndex (length xs) start; final = relIndex (length xs) end_i
      in take (final - k) (drop k xs))"

text \<open>
  \<^verbatim>\<open>Array.prototype.sort(compareFn)\<close>, which is stable: an element is placed before the
  first element of the sorted rest that it does not follow, so elements that compare
  equal keep their order.
\<close>

fun insertCmp :: "('a \<Rightarrow> 'a \<Rightarrow> int) \<Rightarrow> 'a \<Rightarrow> 'a list \<Rightarrow> 'a list" where
  "insertCmp cmp x [] = [x]"
| "insertCmp cmp x (y # ys) =
     (if cmp x y \<le> 0 then x # y # ys else y # insertCmp cmp x ys)"

fun sortCmp :: "('a \<Rightarrow> 'a \<Rightarrow> int) \<Rightarrow> 'a list \<Rightarrow> 'a list" where
  "sortCmp cmp [] = []"
| "sortCmp cmp (x # xs) = insertCmp cmp x (sortCmp cmp xs)"

text \<open>\<^verbatim>\<open>Array.prototype.findIndex\<close>, with \<open>None\<close> for \<^verbatim>\<open>-1\<close>.\<close>

fun findIndex :: "('a \<Rightarrow> bool) \<Rightarrow> 'a list \<Rightarrow> nat option" where
  "findIndex P [] = None"
| "findIndex P (x # xs) =
     (if P x then Some 0 else map_option Suc (findIndex P xs))"

text \<open>\<^verbatim>\<open>Math.ceil(total / limit)\<close> for an integer \<^verbatim>\<open>limit\<close> other than zero.\<close>

definition ceilDiv :: "nat \<Rightarrow> int \<Rightarrow> int" where
  "ceilDiv total_n limit = - ((- int total_n) div limit)"

section \<open>The in-memory store\<close>

text \<open>
  The module-level array \<^verbatim>\<open>tasks\<close> is the state; every operation takes it and, when
  it writes, returns the new array with its result.
\<close>

type_synonym store = "Task list"

record ListResult =
  tasks :: "Task list"
  total :: nat
  page :: "int option"
  totalPages :: "int option"

text \<open>
  A number as \<^verbatim>\<open>getAllTasks\<close> receives it from \<^verbatim>\<open>parseInt\<close>: an integer, or \<^verbatim>\<open>NaN\<close>
  for a string that does not start with one.
\<close>

datatype jsNumber = NaN | Num int

text \<open>
  \<^verbatim>\<open>getAllTasks\<close>, statement by statement, with \<^verbatim>\<open>String.prototype.toLowerCase\<close> as the
  parameter \<open>lc\<close>. \<open>byStatusWith\<close> is \<^verbatim>\<open>if (status) { ... }\<close> and \<open>bySearchWith\<close> is
  \<^verbatim>\<open>if (search) { ... }\<close>: an argument that is absent, or the empty string, is falsy
  and filters nothing. \<open>newestFirst\<close> is the comparison function given to \<^verbatim>\<open>sort\<close>, and
  \<open>filteredTasksWith\<close> is the variable \<^verbatim>\<open>filteredTasks\<close> once sorted. \<open>paged\<close> is the test
  \<^verbatim>\<open>page && limit\<close>: it gives both numbers when neither is absent, \<^verbatim>\<open>NaN\<close> or zero.
\<close>

definition byStatusWith :: "(string \<Rightarrow> string) \<Rightarrow> string option \<Rightarrow> Task list \<Rightarrow> Task list" where
  "byStatusWith lc st ts =
     (case st of
        None \<Rightarrow> ts
      | Some s \<Rightarrow>
          if s = [] then ts
          else filter (\<lambda>t. lc (statusString (status t)) = lc s) ts)"

definition bySearchWith :: "(string \<Rightarrow> string) \<Rightarrow> string option \<Rightarrow> Task list \<Rightarrow> Task list" where
  "bySearchWith lc se ts =
     (case se of
        None \<Rightarrow> ts
      | Some q \<Rightarrow>
          if q = [] then ts
          else filter (\<lambda>t. includesStr (lc (title t)) (lc q)) ts)"

definition newestFirst :: "Task \<Rightarrow> Task \<Rightarrow> int" where
  "newestFirst a b = createdAt b - createdAt a"

definition filteredTasksWith ::
  "(string \<Rightarrow> string) \<Rightarrow> store \<Rightarrow> string option \<Rightarrow> string option \<Rightarrow> Task list" where
  "filteredTasksWith lc s st se = sortCmp newestFirst (bySearchWith lc se (byStatusWith lc st s))"

definition paged :: "jsNumber option \<Rightarrow> jsNumber option \<Rightarrow> (int \<times> int) option" where
  "paged pg lm =
     (case pg of
        None \<Rightarrow> None
      | Some NaN \<Rightarrow> None
      | Some (Num p) \<Rightarrow>
          (case lm of
             None \<Rightarrow> None
           | Some NaN \<Rightarrow> None
           | Some (Num l) \<Rightarrow> if p = 0 \<or> l = 0 then None else Some (p, l)))"

definition getAllTasksWith ::
  "(string \<Rightarrow> string) \<Rightarrow> store \<Rightarrow> jsNumber option \<Rightarrow> jsNumber option
     \<Rightarrow> string option \<Rightarrow> string option \<Rightarrow> ListResult" where
  "getAllTasksWith lc s pg lm st se =
     (let ft = filteredTasksWith lc s st se; n = length ft in
      case paged pg lm of
        Some (p, l) \<Rightarrow>
          let startIndex = (p - 1) * l; endIndex = startIndex + l in
          \<lparr>tasks = slice ft startIndex endIndex, total = n,
           page = Some p, totalPages = Some (ceilDiv n l)\<rparr>
      | None \<Rightarrow> \<lparr>tasks = ft, total = n, page = None, totalPages = None\<rparr>)"

text \<open>
  \<^verbatim>\<open>getAllTasks\<close> for a page and a limit that are integers when they are given, on
  ASCII strings.
\<close>

definition getAllTasks ::
  "store \<Rightarrow> int option \<Rightarrow> int option \<Rightarrow> string option \<Rightarrow> string option \<Rightarrow> ListResult" where
  "getAllTasks s pg lm st se =
     getAllTasksWith toLowerCase s (map_option Num pg) (map_option Num lm) st se"

definition getTaskById :: "store \<Rightarrow> string \<Rightarrow> Task option" where
  "getTaskById s i = find (\<lambda>t. id_f t = i) s"

definition addTask :: "store \<Rightarrow> Task \<Rightarrow> Task \<times> store" where
  "addTask s t = (t, s @ [t])"

text \<open>
  The object spread \<^verbatim>\<open>{...task, ...updates, updatedAt: new Date()}\<close>: every key present
  in the patch replaces the task's, then \<^verbatim>\<open>updatedAt\<close> is set to the clock reading.
\<close>

definition spread :: "Task \<Rightarrow> PartialTask \<Rightarrow> int \<Rightarrow> Task" where
  "spread t u now =
     \<lparr>id_f = (case p_id u of None \<Rightarrow> id_f t | Some v \<Rightarrow> v),
      title = (case p_title u of None \<Rightarrow> title t | Some v \<Rightarrow> v),
      description = (case p_description u of None \<Rightarrow> description t | Some v \<Rightarrow> v),
      status = (case p_status u of None \<Rightarrow> status t | Some v \<Rightarrow> v),
      createdAt = (case p_createdAt u of None \<Rightarrow> createdAt t | Some v \<Rightarrow> v),
      updatedAt = now\<rparr>"

definition updateTask :: "store \<Rightarrow> int \<Rightarrow> string \<Rightarrow> PartialTask \<Rightarrow> Task option \<times> store" where
  "updateTask s now i u =
     (case findIndex (\<lambda>t. id_f t = i) s of
        None \<Rightarrow> (None, s)
      | Some k \<Rightarrow> (Some (spread (s ! k) u now), s[k := spread (s ! k) u now]))"

definition deleteTask :: "store \<Rightarrow> string \<Rightarrow> bool \<times> store" where
  "deleteTask s i =
     (case findIndex (\<lambda>t. id_f t = i) s of
        None \<Rightarrow> (False, s)
      | Some k \<Rightarrow> (True, take k s @ drop (Suc k) s))"

definition getTaskCount :: "store \<Rightarrow> nat" where
  "getTaskCount s = length s"

definition clearAllTasks :: "store \<Rightarrow> store" where
  "clearAllTasks s = []"

section \<open>The SQLite store\<close>

text \<open>
  The table \<^verbatim>\<open>tasks\<close> is the state: its rows in insertion (rowid) order. A row holds
  its two timestamps as the strings that \<^verbatim>\<open>toISOString\<close> wrote, and \<^verbatim>\<open>new Date\<close> reads
  them back to the same millisecond values, so a row is kept as a \<open>Task\<close>. The order of
  the rows is another matter: \<^verbatim>\<open>ORDER BY createdAt DESC\<close> compares the stored strings,
  character by character, so \<^verbatim>\<open>Date.prototype.toISOString\<close> is the parameter \<open>toISO\<close> of
  the list operation. SQL leaves the order of rows with equal \<^verbatim>\<open>createdAt\<close> open; the
  model keeps them in rowid order.
\<close>

type_synonym db = "Task list"

datatype sqlError = SQLITE_CONSTRAINT | SQLITE_MISMATCH

text \<open>
  The \<^verbatim>\<open>LIKE\<close> operator: \<^verbatim>\<open>%\<close> in the pattern stands for any run of characters,
  \<^verbatim>\<open>_\<close> for any one character, and any other character for itself, an ASCII letter
  in either case.
\<close>

fun sqlLike :: "string \<Rightarrow> string \<Rightarrow> bool" where
  "sqlLike [] s = (s = [])"
| "sqlLike (p # ps) [] = (p = CHR ''%'' \<and> sqlLike ps [])"
| "sqlLike (p # ps) (c # cs) =
     (if p = CHR ''%'' then sqlLike ps (c # cs) \<or> sqlLike (p # ps) cs
      else (p = CHR ''_'' \<or> upperChar p = upperChar c) \<and> sqlLike ps cs)"

text \<open>
  \<^verbatim>\<open>LIMIT ? OFFSET ?\<close>: a negative limit is no limit, a negative offset is offset zero.
\<close>

definition sqlLimit :: "int \<Rightarrow> int \<Rightarrow> 'a list \<Rightarrow> 'a list" where
  "sqlLimit l off rows =
     (let rest = drop (nat off) rows in if l < 0 then rest else take (nat l) rest)"

text \<open>
  The \<^verbatim>\<open>WHERE\<close> clause that \<^verbatim>\<open>getAllTasks\<close> builds: \<^verbatim>\<open>status = ?\<close> with the argument in
  upper case, \<^verbatim>\<open>String.prototype.toUpperCase\<close> being the parameter \<open>uc\<close>, and
  \<^verbatim>\<open>title LIKE ?\<close> with the argument between two \<^verbatim>\<open>%\<close>.
\<close>

definition whereStatus :: "(string \<Rightarrow> string) \<Rightarrow> string option \<Rightarrow> db \<Rightarrow> db" where
  "whereStatus uc st rows =
     (case st of
        None \<Rightarrow> rows
      | Some s \<Rightarrow>
          if s = [] then rows
          else filter (\<lambda>t. statusString (status t) = uc s) rows)"

definition whereTitleLike :: "string option \<Rightarrow> db \<Rightarrow> db" where
  "whereTitleLike se rows =
     (case se of
        None \<Rightarrow> rows
      | Some q \<Rightarrow>
          if q = [] then rows
          else filter (\<lambda>t. sqlLike (''%'' @ q @ ''%'') (title t)) rows)"

definition isoNewestFirst :: "(int \<Rightarrow> string) \<Rightarrow> Task \<Rightarrow> Task \<Rightarrow> int" where
  "isoNewestFirst toISO a b =
     (if toISO (createdAt a) < toISO (createdAt b) then 1
      else if toISO (createdAt b) < toISO (createdAt a) then - 1
      else 0)"

text \<open>
  The rows of the \<^verbatim>\<open>SELECT\<close> before any \<^verbatim>\<open>LIMIT\<close>.
\<close>

definition db_selectAll ::
  "(string \<Rightarrow> string) \<Rightarrow> (int \<Rightarrow> string) \<Rightarrow> db \<Rightarrow> string option \<Rightarrow> string option
     \<Rightarrow> Task list" where
  "db_selectAll uc toISO d st se =
     sortCmp (isoNewestFirst toISO) (whereTitleLike se (whereStatus uc st d))"

text \<open>
  With a page and a limit the query ends in \<^verbatim>\<open>LIMIT ? OFFSET ?\<close>, and SQLite refuses
  values that it cannot read as its integers (\<^verbatim>\<open>SQLITE_MISMATCH\<close>). Which values these
  are is decided between the driver and SQLite: \<open>binds limit offset\<close>, a parameter,
  says that the two values are taken. The count query runs without them.
\<close>

definition db_getAllTasks ::
  "(string \<Rightarrow> string) \<Rightarrow> (int \<Rightarrow> string) \<Rightarrow> (int \<Rightarrow> int \<Rightarrow> bool) \<Rightarrow> db
     \<Rightarrow> jsNumber option \<Rightarrow> jsNumber option \<Rightarrow> string option \<Rightarrow> string option
     \<Rightarrow> sqlError + ListResult" where
  "db_getAllTasks uc toISO binds d pg lm st se =
     (let n = length (whereTitleLike se (whereStatus uc st d));
          ordered = db_selectAll uc toISO d st se in
      case paged pg lm of
        Some (p, l) \<Rightarrow>
          let offset = (p - 1) * l in
          if binds l offset
          then Inr \<lparr>tasks = sqlLimit l offset ordered, total = n,
                 page = Some p, totalPages = Some (ceilDiv n l)\<rparr>
          else Inl SQLITE_MISMATCH
      | None \<Rightarrow> Inr \<lparr>tasks = ordered, total = n, page = None, totalPages = None\<rparr>)"

definition db_getTaskById :: "db \<Rightarrow> string \<Rightarrow> Task option" where
  "db_getTaskById d i = find (\<lambda>t. id_f t = i) d"

text \<open>\<^verbatim>\<open>id\<close> is the primary key: inserting a second row with it fails.\<close>

definition db_addTask :: "db \<Rightarrow> Task \<Rightarrow> sqlError + Task \<times> db" where
  "db_addTask d t =
     (if id_f t \<in> set (map id_f d) then Inl SQLITE_CONSTRAINT else Inr (t, d @ [t]))"

text \<open>
  The \<^verbatim>\<open>UPDATE\<close> statement sets \<^verbatim>\<open>title\<close>, \<^verbatim>\<open>description\<close> and \<^verbatim>\<open>status\<close> when the
  patch has them, and \<^verbatim>\<open>updatedAt\<close> always.
\<close>

definition setClauses :: "PartialTask \<Rightarrow> int \<Rightarrow> Task \<Rightarrow> Task" where
  "setClauses u now r =
     r\<lparr>title := (case p_title u of None \<Rightarrow> title r | Some v \<Rightarrow> v),
       description := (case p_description u of None \<Rightarrow> description r | Some v \<Rightarrow> v),
       status := (case p_status u of None \<Rightarrow> status r | Some v \<Rightarrow> v),
       updatedAt := now\<rparr>"

definition db_updateTask :: "db \<Rightarrow> int \<Rightarrow> string \<Rightarrow> PartialTask \<Rightarrow> Task option \<times> db" where
  "db_updateTask d now i u =
     (case db_getTaskById d i of
        None \<Rightarrow> (None, d)
      | Some existingTask \<Rightarrow>
          let d' = map (\<lambda>r. if id_f r = i then setClauses u now r else r) d
          in (db_getTaskById d' i, d'))"

definition db_deleteTask :: "db \<Rightarrow> string \<Rightarrow> bool \<times> db" where
  "db_deleteTask d i =
     (let changes = length (filter (\<lambda>r. id_f r = i) d)
      in (changes > 0, filter (\<lambda>r. id_f r \<noteq> i) d))"

definition db_getTaskCount :: "db \<Rightarrow> nat" where
  "db_getTaskCount d = length d"

definition db_clearAllTasks :: "db \<Rightarrow> db" where
  "db_clearAllTasks d = []"

section \<open>The controller\<close>

record CreateTaskRequest =
  r_title :: string
  r_description :: "string option"
  r_status :: "TaskStatus option"

text \<open>\<^verbatim>\<open>description || ''\<close>: an absent or empty description gives the default.\<close>

definition orString :: "string option \<Rightarrow> string \<Rightarrow> string" where
  "orString v dflt = (case v of None \<Rightarrow> dflt | Some x \<Rightarrow> if x = [] then dflt else x)"

definition orStatus :: "TaskStatus option \<Rightarrow> TaskStatus \<Rightarrow> TaskStatus" where
  "orStatus v dflt = (case v of None \<Rightarrow> dflt | Some x \<Rightarrow> x)"

text \<open>
  \<^verbatim>\<open>createTask\<close> draws an identifier from \<^verbatim>\<open>uuidv4()\<close> and reads the clock twice, once
  for \<^verbatim>\<open>createdAt\<close> and once for \<^verbatim>\<open>updatedAt\<close>; the three values are arguments here,
  in the order the object literal evaluates them.
\<close>

definition createTask ::
  "store \<Rightarrow> string \<Rightarrow> int \<Rightarrow> int \<Rightarrow> CreateTaskRequest \<Rightarrow> Task \<times> store" where
  "createTask s uuid now1 now2 body =
     addTask s
       \<lparr>id_f = uuid, title = r_title body,
        description = orString (r_description body) [],
        status = orStatus (r_status body) PENDING,
        createdAt = now1, updatedAt = now2\<rparr>"

text \<open>
  \<^verbatim>\<open>getTaskStats\<close> answers with the object literal \<^verbatim>\<open>stats\<close>: its keys, in order, with
  their values.
\<close>

definition getTaskStats :: "store \<Rightarrow> (string \<times> nat) list" where
  "getTaskStats s =
     (let ts = tasks (getAllTasks s None None None None) in
      [(''total'', length ts),
       (''pending'', length (filter (\<lambda>task. status task = PENDING) ts)),
       (''inProgress'', length (filter (\<lambda>task. status task = IN_PROGRESS) ts)),
       (''completed'', length (filter (\<lambda>task. status task = COMPLETED) ts))])"

section \<open>Statements of the specification\<close>

text \<open>
  The spec's normalization of a status filter to the canonical enum: the status whose
  name the filter spells, letter case aside, or none. Letter case is put aside by
  \<open>lc\<close>, which takes the three names to \<^verbatim>\<open>pending\<close>, \<^verbatim>\<open>in_progress\<close> and \<^verbatim>\<open>completed\<close>.
\<close>

definition normalizeStatusWith :: "(string \<Rightarrow> string) \<Rightarrow> string \<Rightarrow> TaskStatus option" where
  "normalizeStatusWith lc x =
     (if lc x = ''pending'' then Some PENDING
      else if lc x = ''in_progress'' then Some IN_PROGRESS
      else if lc x = ''completed'' then Some COMPLETED
      else None)"

section \<open>Example data\<close>

text \<open>
  The scenario of the spec: tasks A and B are pending, task C is completed; they were
  created in this order, a second apart.
\<close>

definition taskA :: Task where
  "taskA = \<lparr>id_f = ''a'', title = ''Alpha'', description = ''first'', status = PENDING,
     createdAt = 1000, updatedAt = 1000\<rparr>"

definition taskB :: Task where
  "taskB = \<lparr>id_f = ''b'', title = ''Beta'', description = [], status = PENDING,
     createdAt = 2000, updatedAt = 2000\<rparr>"

definition taskC :: Task where
  "taskC = \<lparr>id_f = ''c'', title = ''Gamma'', description = [], status = COMPLETED,
     createdAt = 3000, updatedAt = 3000\<rparr>"

definition scenario :: store where
  "scenario = [taskA, taskB, taskC]"

section \<open>Library functions\<close>

lemma toLowerCase_statusString:
  "toLowerCase ''PENDING'' = ''pending''"
  "toLowerCase ''IN_PROGRESS'' = ''in_progress''"
  "toLowerCase ''COMPLETED'' = ''completed''"
  by code_simp+

lemma startsWith_prefix: "startsWith s q = prefix q s"
  by (induction s q rule: startsWith.induct) auto

lemma includesStr_sublist: "includesStr s q = sublist q s"
  by (induction s) (auto simp: startsWith_prefix sublist_Cons_right)

lemma sortCmp_newestFirst: "sortCmp newestFirst xs = sort_key (\<lambda>t. - createdAt t) xs"
proof (induction xs)
  case Nil
  show ?case by simp
next
  case (Cons x xs)
  have ins: "insertCmp newestFirst x ys = insort_key (\<lambda>t. - createdAt t) x ys" for ys
    by (induction ys) (simp_all add: newestFirst_def)
  show ?case using Cons by (simp add: ins)
qed

lemma mset_sortCmp: "mset (sortCmp newestFirst xs) = mset xs"
  by (simp add: sortCmp_newestFirst)

lemma set_sortCmp: "set (sortCmp newestFirst xs) = set xs"
  by (simp add: sortCmp_newestFirst)

lemma length_sortCmp: "length (sortCmp newestFirst xs) = length xs"
  by (simp add: sortCmp_newestFirst)

lemma length_sortCmp_any: "length (sortCmp cmp xs) = length xs"
proof (induction xs)
  case Nil
  show ?case by simp
next
  case (Cons x xs)
  have "length (insertCmp cmp x ys) = Suc (length ys)" for ys
    by (induction ys) simp_all
  then show ?case using Cons by simp
qed

lemma length_filter_sortCmp:
  "length (filter P (sortCmp newestFirst xs)) = length (filter P xs)"
proof -
  have "mset (filter P (sortCmp newestFirst xs)) = mset (filter P xs)"
    by (simp add: mset_sortCmp)
  then show ?thesis by (metis size_mset)
qed

lemma sorted_sortCmp:
  "sorted_wrt (\<lambda>a b. createdAt b \<le> createdAt a) (sortCmp newestFirst xs)"
proof -
  have "sorted (map (\<lambda>t. - createdAt t) (sort_key (\<lambda>t. - createdAt t) xs))"
    by (rule sorted_sort_key)
  then show ?thesis
    by (simp add: sortCmp_newestFirst sorted_map)
qed

lemma stable_sortCmp:
  "filter (\<lambda>t. createdAt t = k) (sortCmp newestFirst xs) = filter (\<lambda>t. createdAt t = k) xs"
proof -
  have "filter (\<lambda>t. - createdAt t = - k) (sort_key (\<lambda>t. - createdAt t) xs)
      = filter (\<lambda>t. - createdAt t = - k) xs"
    by (rule sort_key_stable)
  then show ?thesis by (simp add: sortCmp_newestFirst)
qed

lemma concat_pages:
  "concat (map (\<lambda>k. take l (drop (k * l) xs)) [0..<n]) = take (n * l) xs"
proof (induction n)
  case 0
  show ?case by simp
next
  case (Suc n)
  have "take (n * l) xs @ take l (drop (n * l) xs) = take (n * l + l) xs"
    by (simp add: take_add)
  then show ?case using Suc by (simp add: add.commute)
qed

lemma ceilDiv_ceiling: "ceilDiv n l = \<lceil>real n / real_of_int l\<rceil>"
  by (metis ceilDiv_def ceiling_divide_eq_div of_int_of_nat_eq)

section \<open>Statistics\<close>

lemma getAllTasks_unfiltered:
  "getAllTasks s None None None None =
     \<lparr>tasks = sortCmp newestFirst s, total = length s, page = None, totalPages = None\<rparr>"
  by (simp add: getAllTasks_def getAllTasksWith_def paged_def filteredTasksWith_def
      byStatusWith_def bySearchWith_def length_sortCmp)

lemma getTaskStats_eq:
  "getTaskStats s =
     [(''total'', length s),
      (''pending'', length (filter (\<lambda>t. status t = PENDING) s)),
      (''inProgress'', length (filter (\<lambda>t. status t = IN_PROGRESS) s)),
      (''completed'', length (filter (\<lambda>t. status t = COMPLETED) s))]"
  by (simp add: getTaskStats_def getAllTasks_unfiltered length_sortCmp length_filter_sortCmp)

lemma status_partition:
  "length (filter (\<lambda>t. status t = PENDING) s)
     + length (filter (\<lambda>t. status t = IN_PROGRESS) s)
     + length (filter (\<lambda>t. status t = COMPLETED) s) = length s"
proof (induction s)
  case Nil
  show ?case by simp
next
  case (Cons t s)
  then show ?case by (cases "status t") simp_all
qed

text \<open>
  C1, as the code has it. For every state of the collection the stats operation
  returns the exact counts \<^verbatim>\<open>total\<close>, \<^verbatim>\<open>pending\<close>, \<^verbatim>\<open>inProgress\<close> and \<^verbatim>\<open>completed\<close>,
  and these four keys only: the object has no \<^verbatim>\<open>completionRate\<close>.
\<close>

theorem getTaskStats_counts:
  "getTaskStats s =
     [(''total'', length s),
      (''pending'', length (filter (\<lambda>t. status t = PENDING) s)),
      (''inProgress'', length (filter (\<lambda>t. status t = IN_PROGRESS) s)),
      (''completed'', length (filter (\<lambda>t. status t = COMPLETED) s))]
   \<and> map_of (getTaskStats s) ''completionRate'' = None"
  by (simp add: getTaskStats_eq)

theorem getTaskStats_counts_witness:
  "getTaskStats scenario =
     [(''total'', 3), (''pending'', 2), (''inProgress'', 0), (''completed'', 1)]"
  using getTaskStats_counts [of scenario]
  by (simp add: scenario_def taskA_def taskB_def taskC_def)

text \<open>
  C1 as the spec states it asks for a \<^verbatim>\<open>completionRate\<close> of 33.33 in the scenario; the
  object returned there has no such key.
\<close>

theorem getTaskStats_completionRate_counterexample:
  "\<not> (\<exists>r. map_of (getTaskStats scenario) ''completionRate'' = Some r)"
proof -
  have "map_of (getTaskStats scenario) ''completionRate'' = None"
    by code_simp
  then show ?thesis by simp
qed

text \<open>
  C7. The stats operation takes no filter: each of its counts is over the whole
  collection, \<^verbatim>\<open>pending\<close>, \<^verbatim>\<open>inProgress\<close> and \<^verbatim>\<open>completed\<close> being the numbers of
  stored tasks with that status and \<^verbatim>\<open>total\<close> the number of stored tasks, and
  \<^verbatim>\<open>pending + inProgress + completed\<close> is \<^verbatim>\<open>total\<close>, for the empty collection too, where
  all four are zero.
\<close>

theorem getTaskStats_invariant:
  "getTaskStats s =
     [(''total'', getTaskCount s),
      (''pending'', length (filter (\<lambda>t. status t = PENDING) s)),
      (''inProgress'', length (filter (\<lambda>t. status t = IN_PROGRESS) s)),
      (''completed'', length (filter (\<lambda>t. status t = COMPLETED) s))]
   \<and> length (filter (\<lambda>t. status t = PENDING) s)
       + length (filter (\<lambda>t. status t = IN_PROGRESS) s)
       + length (filter (\<lambda>t. status t = COMPLETED) s) = getTaskCount s
   \<and> getTaskStats [] =
       [(''total'', 0), (''pending'', 0), (''inProgress'', 0), (''completed'', 0)]"
  using status_partition [of s] by (simp add: getTaskStats_eq getTaskCount_def)

theorem getTaskStats_invariant_witness:
  "getTaskStats [taskC, taskA] =
     [(''total'', 2), (''pending'', 1), (''inProgress'', 0), (''completed'', 1)]
   \<and> getTaskCount [taskC, taskA] = 2"
  using getTaskStats_invariant [of "[taskC, taskA]"]
  by (simp add: getTaskCount_def taskA_def taskC_def)

section \<open>Pagination\<close>

lemma take_min_length: "take (min n (length ys)) ys = take n ys"
  by (simp add: min_def)

lemma slice_nonneg:
  assumes "0 \<le> a" and "0 \<le> b"
  shows "slice xs a (a + b) = take (nat b) (drop (nat a) xs)"
proof (cases "nat a \<le> length xs")
  case True
  have "relIndex (length xs) a = nat a"
    using assms True by (simp add: relIndex_def)
  moreover have "relIndex (length xs) (a + b) = min (nat a + nat b) (length xs)"
    using assms by (simp add: relIndex_def nat_add_distrib)
  moreover have "min (nat a + nat b) (length xs) - nat a = min (nat b) (length (drop (nat a) xs))"
    using True by (simp add: min_def)
  ultimately have "slice xs a (a + b) = take (min (nat b) (length (drop (nat a) xs))) (drop (nat a) xs)"
    by (simp only: slice_def Let_def)
  then show ?thesis
    by (simp only: take_min_length)
next
  case False
  then show ?thesis
    using assms by (simp add: slice_def relIndex_def Let_def min_def)
qed

lemma upto_as_nats: "[1..int n] = map (\<lambda>k. int k + 1) [0..<n]"
proof (induction n)
  case 0
  show ?case by simp
next
  case (Suc n)
  have "[1..int (Suc n)] = [1..int n] @ [int n + 1]"
    using upto_rec2 [of 1 "int (Suc n)"] by (simp add: add.commute)
  then show ?case using Suc by simp
qed

lemma paged_positive:
  "p \<noteq> 0 \<Longrightarrow> l \<noteq> 0 \<Longrightarrow> paged (Some (Num p)) (Some (Num l)) = Some (p, l)"
  by (simp add: paged_def)

lemma getAllTasksWith_unpaged:
  "getAllTasksWith lc s None None st se =
     \<lparr>tasks = filteredTasksWith lc s st se, total = length (filteredTasksWith lc s st se),
      page = None, totalPages = None\<rparr>"
  by (simp add: getAllTasksWith_def paged_def Let_def)

lemma getAllTasks_unpaged:
  "getAllTasks s None None st se =
     \<lparr>tasks = filteredTasksWith toLowerCase s st se,
      total = length (filteredTasksWith toLowerCase s st se),
      page = None, totalPages = None\<rparr>"
  by (simp add: getAllTasks_def getAllTasksWith_unpaged)

lemma getAllTasksWith_sliced:
  assumes "paged pg lm = Some (p, l)"
  shows "getAllTasksWith lc s pg lm st se =
     \<lparr>tasks = slice (filteredTasksWith lc s st se) ((p - 1) * l) ((p - 1) * l + l),
      total = length (filteredTasksWith lc s st se),
      page = Some p,
      totalPages = Some (ceilDiv (length (filteredTasksWith lc s st se)) l)\<rparr>"
  using assms by (simp add: getAllTasksWith_def Let_def)

lemma getAllTasks_page:
  assumes "0 < p" and "0 < l"
  shows "getAllTasks s (Some p) (Some l) st se =
     \<lparr>tasks = take (nat l) (drop (nat (p - 1) * nat l) (filteredTasksWith toLowerCase s st se)),
      total = length (filteredTasksWith toLowerCase s st se),
      page = Some p,
      totalPages =
        Some \<lceil>real (length (filteredTasksWith toLowerCase s st se)) / real_of_int l\<rceil>\<rparr>"
proof -
  have "slice xs ((p - 1) * l) ((p - 1) * l + l) = take (nat l) (drop (nat (p - 1) * nat l) xs)"
    for xs :: "Task list"
    using assms slice_nonneg [of "(p - 1) * l" l xs] by (simp add: nat_mult_distrib)
  moreover have "paged (Some (Num p)) (Some (Num l)) = Some (p, l)"
    using assms by (simp add: paged_positive)
  ultimately show ?thesis
    by (simp add: getAllTasks_def getAllTasksWith_sliced ceilDiv_ceiling)
qed

lemma ceiling_nonneg:
  assumes "0 < l"
  shows "0 \<le> \<lceil>real n / real_of_int l\<rceil>"
proof -
  have "0 \<le> real n / real_of_int l"
    using assms by simp
  then have "\<lceil>0::real\<rceil> \<le> \<lceil>real n / real_of_int l\<rceil>"
    by (rule ceiling_mono)
  then show ?thesis by simp
qed

lemma pages_cover:
  assumes "0 < l"
  shows "length xs \<le> nat \<lceil>real (length xs) / real_of_int l\<rceil> * nat l"
proof -
  have "real (length xs) / real_of_int l \<le> of_int \<lceil>real (length xs) / real_of_int l\<rceil>"
    by (rule le_of_int_ceiling)
  then have "real (length xs) \<le> of_int \<lceil>real (length xs) / real_of_int l\<rceil> * real_of_int l"
    using assms by (metis of_int_0_less_iff pos_divide_le_eq)
  then have "int (length xs) \<le> \<lceil>real (length xs) / real_of_int l\<rceil> * l"
    by (metis of_int_le_iff of_int_mult of_int_of_nat_eq)
  moreover have "0 \<le> \<lceil>real (length xs) / real_of_int l\<rceil>"
    using assms by (rule ceiling_nonneg)
  ultimately show ?thesis
    using assms by (metis nat_int nat_mono nat_mult_distrib)
qed

text \<open>
  C5. For positive \<^verbatim>\<open>page\<close> and \<^verbatim>\<open>limit\<close> the returned slice is at most \<^verbatim>\<open>limit\<close> long,
  \<^verbatim>\<open>total\<close> counts the filtered set before pagination, \<^verbatim>\<open>totalPages\<close> is
  \<^verbatim>\<open>ceil(total / limit)\<close>, and the slices of the pages 1 to \<^verbatim>\<open>totalPages\<close>, one after
  the other, are the filtered, sorted set that the request without pagination returns.
\<close>

theorem getAllTasks_pagination:
  assumes "0 < p" and "0 < l"
  shows "length (tasks (getAllTasks s (Some p) (Some l) st se)) \<le> nat l
    \<and> total (getAllTasks s (Some p) (Some l) st se)
        = length (tasks (getAllTasks s None None st se))
    \<and> totalPages (getAllTasks s (Some p) (Some l) st se)
        = Some \<lceil>real (total (getAllTasks s (Some p) (Some l) st se)) / real_of_int l\<rceil>
    \<and> concat (map (\<lambda>q. tasks (getAllTasks s (Some q) (Some l) st se))
          [1..\<lceil>real (total (getAllTasks s (Some p) (Some l) st se)) / real_of_int l\<rceil>])
        = tasks (getAllTasks s None None st se)"
proof -
  let ?ft = "filteredTasksWith toLowerCase s st se"
  let ?tp = "\<lceil>real (length ?ft) / real_of_int l\<rceil>"
  have tp: "0 \<le> ?tp"
    using assms(2) by (rule ceiling_nonneg)
  have "concat (map (\<lambda>q. tasks (getAllTasks s (Some q) (Some l) st se)) [1..int n])
      = concat (map (\<lambda>k. take (nat l) (drop (k * nat l) ?ft)) [0..<n])" for n
    using assms by (simp add: upto_as_nats getAllTasks_page comp_def)
  then have "concat (map (\<lambda>q. tasks (getAllTasks s (Some q) (Some l) st se)) [1..int (nat ?tp)])
      = concat (map (\<lambda>k. take (nat l) (drop (k * nat l) ?ft)) [0..<nat ?tp])" .
  also have "\<dots> = take (nat ?tp * nat l) ?ft"
    by (rule concat_pages)
  also have "\<dots> = ?ft"
    using pages_cover [OF assms(2), of ?ft] by simp
  finally have "concat (map (\<lambda>q. tasks (getAllTasks s (Some q) (Some l) st se)) [1..?tp]) = ?ft"
    using tp by simp
  then show ?thesis
    using assms by (simp add: getAllTasks_page getAllTasks_unpaged)
qed

theorem getAllTasks_pagination_witness:
  "length (tasks (getAllTasks scenario (Some 2) (Some 2) None None)) \<le> 2
    \<and> total (getAllTasks scenario (Some 2) (Some 2) None None) = 3
    \<and> totalPages (getAllTasks scenario (Some 2) (Some 2) None None) = Some 2
    \<and> concat (map (\<lambda>q. tasks (getAllTasks scenario (Some q) (Some 2) None None)) [1..2])
        = tasks (getAllTasks scenario None None None None)"
proof -
  have t: "length (tasks (getAllTasks scenario None None None None)) = 3"
    by (simp add: getAllTasks_unfiltered length_sortCmp scenario_def)
  have c: "\<lceil>real 3 / real_of_int 2\<rceil> = 2"
    by simp
  note th = getAllTasks_pagination [of 2 2 scenario None None]
  have n: "total (getAllTasks scenario (Some 2) (Some 2) None None) = 3"
    using th t by simp
  show ?thesis
    using th by (simp add: n c)
qed

section \<open>Filtering\<close>

lemma set_byStatusWith:
  assumes "lc ''PENDING'' = ''pending''" and "lc ''IN_PROGRESS'' = ''in_progress''"
    and "lc ''COMPLETED'' = ''completed''"
  shows "t \<in> set (byStatusWith lc st s) \<longleftrightarrow>
     t \<in> set s
     \<and> (case st of None \<Rightarrow> True
         | Some x \<Rightarrow> x = [] \<or> normalizeStatusWith lc x = Some (status t))"
proof (cases st)
  case None
  then show ?thesis by (simp add: byStatusWith_def)
next
  case (Some x)
  have "lc (statusString (status t)) = lc x \<longleftrightarrow> normalizeStatusWith lc x = Some (status t)"
    using assms by (cases "status t") (auto simp: normalizeStatusWith_def)
  then show ?thesis
    using Some by (auto simp: byStatusWith_def)
qed

lemma set_bySearchWith:
  assumes "lc [] = []"
  shows "t \<in> set (bySearchWith lc se s) \<longleftrightarrow>
     t \<in> set s
     \<and> (case se of None \<Rightarrow> True | Some q \<Rightarrow> sublist (lc q) (lc (title t)))"
proof (cases se)
  case None
  then show ?thesis by (simp add: bySearchWith_def)
next
  case (Some q)
  then show ?thesis
    using assms by (auto simp: bySearchWith_def includesStr_sublist)
qed

text \<open>
  C6, as the code has it. Let \<open>lc\<close> be \<^verbatim>\<open>toLowerCase\<close>: a function on strings that
  keeps the empty string and takes the names of the three statuses to \<^verbatim>\<open>pending\<close>,
  \<^verbatim>\<open>in_progress\<close> and \<^verbatim>\<open>completed\<close>. A task is in the result of a list request exactly
  when it is in the collection and satisfies every filter supplied. For a status
  filter that is not the empty string, the status that the filter names, letter case
  aside, is the task's; the empty string as status filter excludes nothing. For a
  search string, the string in lower case occurs in the title in lower case; the
  description is not looked at.
\<close>

theorem getAllTasks_filter:
  assumes "lc [] = []"
    and "lc ''PENDING'' = ''pending''" and "lc ''IN_PROGRESS'' = ''in_progress''"
    and "lc ''COMPLETED'' = ''completed''"
  shows "t \<in> set (tasks (getAllTasksWith lc s None None st se)) \<longleftrightarrow>
     t \<in> set s
     \<and> (case st of None \<Rightarrow> True
         | Some x \<Rightarrow> x = [] \<or> normalizeStatusWith lc x = Some (status t))
     \<and> (case se of None \<Rightarrow> True | Some q \<Rightarrow> sublist (lc q) (lc (title t)))"
  using assms
  by (simp add: getAllTasksWith_unpaged filteredTasksWith_def set_sortCmp
      set_bySearchWith set_byStatusWith)

theorem getAllTasks_filter_witness:
  "toLowerCase [] = [] \<and> toLowerCase ''PENDING'' = ''pending''
   \<and> toLowerCase ''IN_PROGRESS'' = ''in_progress'' \<and> toLowerCase ''COMPLETED'' = ''completed''
   \<and> taskC \<in> set (tasks (getAllTasksWith toLowerCase scenario None None
        (Some ''completed'') (Some ''GAM'')))
   \<and> taskA \<notin> set (tasks (getAllTasksWith toLowerCase scenario None None
        (Some ''completed'') (Some ''GAM'')))"
proof -
  have e: "toLowerCase [] = []"
    by (simp add: toLowerCase_def)
  have n: "normalizeStatusWith toLowerCase ''completed'' = Some COMPLETED"
    by code_simp
  have q: "sublist (toLowerCase ''GAM'') (toLowerCase ''Gamma'')"
    by code_simp
  note th = getAllTasks_filter [OF e toLowerCase_statusString, of _ scenario
      "Some ''completed''" "Some ''GAM''"]
  show ?thesis
    using th [of taskC] th [of taskA]
    by (simp add: e toLowerCase_statusString n q scenario_def taskA_def taskC_def)
qed

text \<open>
  C6 as stated lets a task through a status filter only when its status is the one
  given. With the empty string as status filter, which names no status, the completed
  task C is returned, with the two pending tasks.
\<close>

theorem getAllTasks_empty_status_counterexample:
  "normalizeStatusWith toLowerCase [] = None
   \<and> status taskC = COMPLETED
   \<and> tasks (getAllTasksWith toLowerCase scenario None None (Some []) None)
       = [taskC, taskB, taskA]"
  by code_simp

section \<open>Deleting\<close>

lemma deleteTask_Nil: "deleteTask [] i = (False, [])"
  by (simp add: deleteTask_def)

lemma deleteTask_Cons:
  "deleteTask (t # s) i =
     (if id_f t = i then (True, s)
      else (fst (deleteTask s i), t # snd (deleteTask s i)))"
  by (simp add: deleteTask_def split: option.splits)

lemma fst_deleteTask: "fst (deleteTask s i) = (i \<in> id_f ` set s)"
  by (induction s) (auto simp: deleteTask_Cons deleteTask_Nil)

lemma snd_deleteTask_absent: "i \<notin> id_f ` set s \<Longrightarrow> snd (deleteTask s i) = s"
  by (induction s) (auto simp: deleteTask_Cons deleteTask_Nil)

lemma filter_absent: "i \<notin> id_f ` set s \<Longrightarrow> filter (\<lambda>t. id_f t \<noteq> i) s = s"
  by (induction s) auto

lemma snd_deleteTask:
  "distinct (map id_f s) \<Longrightarrow> snd (deleteTask s i) = filter (\<lambda>t. id_f t \<noteq> i) s"
proof (induction s)
  case Nil
  show ?case by (simp add: deleteTask_Nil)
next
  case (Cons t s)
  then show ?case
    by (auto simp: deleteTask_Cons filter_absent)
qed

text \<open>
  C9. Deleting returns a boolean and raises nothing. In a collection whose ids are
  unique, \<^verbatim>\<open>delete(id)\<close> answers true exactly when the id is present, removes that
  record and no other, and a second \<^verbatim>\<open>delete\<close> of the same id answers false; for an
  id that was never present it answers false and changes nothing. The SQLite store
  does the same.
\<close>

theorem deleteTask_outcome:
  assumes "distinct (map id_f s)"
  shows "fst (deleteTask s i) = (i \<in> id_f ` set s)
    \<and> snd (deleteTask s i) = filter (\<lambda>t. id_f t \<noteq> i) s
    \<and> deleteTask (snd (deleteTask s i)) i = (False, snd (deleteTask s i))
    \<and> fst (db_deleteTask s i) = (i \<in> id_f ` set s)
    \<and> snd (db_deleteTask s i) = filter (\<lambda>t. id_f t \<noteq> i) s
    \<and> db_deleteTask (snd (db_deleteTask s i)) i = (False, snd (db_deleteTask s i))"
proof -
  let ?r = "filter (\<lambda>t. id_f t \<noteq> i) s"
  have gone: "i \<notin> id_f ` set ?r"
    by auto
  have "deleteTask ?r i = (False, ?r)"
    using fst_deleteTask [of ?r i] snd_deleteTask_absent [OF gone] gone
    by (metis prod.collapse)
  moreover have "filter (\<lambda>r. id_f r = i) s \<noteq> [] \<longleftrightarrow> i \<in> id_f ` set s"
    by (auto simp: filter_empty_conv)
  ultimately show ?thesis
    using assms by (simp add: fst_deleteTask snd_deleteTask db_deleteTask_def Let_def)
qed

theorem deleteTask_outcome_witness:
  "distinct (map id_f scenario)
    \<and> deleteTask scenario ''b'' = (True, [taskA, taskC])
    \<and> deleteTask [taskA, taskC] ''b'' = (False, [taskA, taskC])
    \<and> db_deleteTask scenario ''b'' = (True, [taskA, taskC])"
proof -
  have d: "distinct (map id_f scenario)"
    by (simp add: scenario_def taskA_def taskB_def taskC_def)
  have f: "filter (\<lambda>t. id_f t \<noteq> ''b'') scenario = [taskA, taskC]"
    by (simp add: scenario_def taskA_def taskB_def taskC_def)
  have m: "''b'' \<in> id_f ` set scenario"
    by (simp add: scenario_def taskB_def)
  note th = deleteTask_outcome [OF d, of "''b''"]
  have r: "snd (deleteTask scenario ''b'') = [taskA, taskC]"
    using th by (simp add: f)
  show ?thesis
    using th d by (simp add: f m r prod_eq_iff)
qed

section \<open>The pagination gate\<close>

lemma paged_iff:
  "paged pg lm \<noteq> None \<longleftrightarrow>
     (\<exists>p l. pg = Some (Num p) \<and> lm = Some (Num l) \<and> p \<noteq> 0 \<and> l \<noteq> 0)"
  by (simp add: paged_def split: option.splits jsNumber.splits)

lemma db_getAllTasks_unsliced:
  assumes "paged pg lm = None"
  shows "db_getAllTasks uc toISO binds d pg lm st se =
     Inr \<lparr>tasks = db_selectAll uc toISO d st se, total = length (db_selectAll uc toISO d st se),
       page = None, totalPages = None\<rparr>"
  using assms by (simp add: db_getAllTasks_def db_selectAll_def Let_def length_sortCmp_any)

lemma db_getAllTasks_sliced:
  assumes "paged pg lm = Some (p, l)"
  shows "db_getAllTasks uc toISO binds d pg lm st se =
     (if binds l ((p - 1) * l)
      then Inr \<lparr>tasks = sqlLimit l ((p - 1) * l) (db_selectAll uc toISO d st se),
             total = length (db_selectAll uc toISO d st se),
             page = Some p,
             totalPages = Some (ceilDiv (length (db_selectAll uc toISO d st se)) l)\<rparr>
      else Inl SQLITE_MISMATCH)"
  using assms by (simp add: db_getAllTasks_def db_selectAll_def Let_def length_sortCmp_any)

text \<open>
  C10, as the code has it. A page or a limit is absent, \<^verbatim>\<open>NaN\<close> or an integer. When
  it is not so that both are supplied and both are integers other than 0, which is
  the case when exactly one is supplied and when either is 0 or \<^verbatim>\<open>NaN\<close>, nothing is
  sliced: the result is the full filtered, sorted set with no \<^verbatim>\<open>page\<close> and no
  \<^verbatim>\<open>totalPages\<close>, in both stores. When both are supplied and are integers other than
  0, negative ones too, the in-memory store answers with \<^verbatim>\<open>page\<close>, \<^verbatim>\<open>totalPages\<close> and
  the slice of that set from \<^verbatim>\<open>(page - 1) * limit\<close> to \<^verbatim>\<open>(page - 1) * limit + limit\<close>; the
  SQLite store answers with \<^verbatim>\<open>page\<close>, \<^verbatim>\<open>totalPages\<close> and the rows that \<^verbatim>\<open>LIMIT\<close> and
  \<^verbatim>\<open>OFFSET\<close> leave, or fails when SQLite refuses the two values.
\<close>

theorem getAllTasks_slicing_gate:
  "(\<not> (\<exists>p l. pg = Some (Num p) \<and> lm = Some (Num l) \<and> p \<noteq> 0 \<and> l \<noteq> 0) \<longrightarrow>
      getAllTasksWith lc s pg lm st se =
        \<lparr>tasks = filteredTasksWith lc s st se, total = length (filteredTasksWith lc s st se),
         page = None, totalPages = None\<rparr>
      \<and> db_getAllTasks uc toISO binds s pg lm st se =
        Inr \<lparr>tasks = db_selectAll uc toISO s st se, total = length (db_selectAll uc toISO s st se),
          page = None, totalPages = None\<rparr>)
   \<and> (\<forall>p l. pg = Some (Num p) \<and> lm = Some (Num l) \<and> p \<noteq> 0 \<and> l \<noteq> 0 \<longrightarrow>
      getAllTasksWith lc s pg lm st se =
        \<lparr>tasks = slice (filteredTasksWith lc s st se) ((p - 1) * l) ((p - 1) * l + l),
         total = length (filteredTasksWith lc s st se),
         page = Some p,
         totalPages = Some (ceilDiv (length (filteredTasksWith lc s st se)) l)\<rparr>
      \<and> db_getAllTasks uc toISO binds s pg lm st se =
        (if binds l ((p - 1) * l)
         then Inr \<lparr>tasks = sqlLimit l ((p - 1) * l) (db_selectAll uc toISO s st se),
                total = length (db_selectAll uc toISO s st se),
                page = Some p,
                totalPages = Some (ceilDiv (length (db_selectAll uc toISO s st se)) l)\<rparr>
         else Inl SQLITE_MISMATCH))"
proof (intro conjI impI allI)
  assume "\<not> (\<exists>p l. pg = Some (Num p) \<and> lm = Some (Num l) \<and> p \<noteq> 0 \<and> l \<noteq> 0)"
  then have none: "paged pg lm = None"
    using paged_iff [of pg lm] by blast
  show "getAllTasksWith lc s pg lm st se =
        \<lparr>tasks = filteredTasksWith lc s st se, total = length (filteredTasksWith lc s st se),
         page = None, totalPages = None\<rparr>"
    using none by (simp add: getAllTasksWith_def Let_def)
  show "db_getAllTasks uc toISO binds s pg lm st se =
        Inr \<lparr>tasks = db_selectAll uc toISO s st se, total = length (db_selectAll uc toISO s st se),
          page = None, totalPages = None\<rparr>"
    using none by (rule db_getAllTasks_unsliced)
next
  fix p l
  assume "pg = Some (Num p) \<and> lm = Some (Num l) \<and> p \<noteq> 0 \<and> l \<noteq> 0"
  then have some: "paged pg lm = Some (p, l)"
    by (simp add: paged_def)
  show "getAllTasksWith lc s pg lm st se =
        \<lparr>tasks = slice (filteredTasksWith lc s st se) ((p - 1) * l) ((p - 1) * l + l),
         total = length (filteredTasksWith lc s st se),
         page = Some p,
         totalPages = Some (ceilDiv (length (filteredTasksWith lc s st se)) l)\<rparr>"
    using some by (rule getAllTasksWith_sliced)
  show "db_getAllTasks uc toISO binds s pg lm st se =
        (if binds l ((p - 1) * l)
         then Inr \<lparr>tasks = sqlLimit l ((p - 1) * l) (db_selectAll uc toISO s st se),
                total = length (db_selectAll uc toISO s st se),
                page = Some p,
                totalPages = Some (ceilDiv (length (db_selectAll uc toISO s st se)) l)\<rparr>
         else Inl SQLITE_MISMATCH)"
    using some by (rule db_getAllTasks_sliced)
qed

theorem getAllTasks_slicing_gate_witness:
  "getAllTasksWith toLowerCase scenario (Some NaN) (Some (Num 2)) None None
     = getAllTasksWith toLowerCase scenario None None None None
   \<and> getAllTasksWith toLowerCase scenario (Some (Num 0)) (Some (Num 2)) None None
     = getAllTasksWith toLowerCase scenario None None None None
   \<and> getAllTasksWith toLowerCase scenario (Some (Num 1)) None None None
     = getAllTasksWith toLowerCase scenario None None None None
   \<and> page (getAllTasksWith toLowerCase scenario None None None None) = None
   \<and> page (getAllTasksWith toLowerCase scenario (Some (Num 1)) (Some (Num 2)) None None) = Some 1
   \<and> db_getAllTasks toUpperCase (\<lambda>m. []) (\<lambda>l off. False) scenario (Some (Num 1)) (Some (Num 2)) None None
     = Inl SQLITE_MISMATCH"
  using getAllTasks_slicing_gate [of "Some NaN" "Some (Num 2)" toLowerCase scenario None None]
    getAllTasks_slicing_gate [of "Some (Num 0)" "Some (Num 2)" toLowerCase scenario None None]
    getAllTasks_slicing_gate [of "Some (Num 1)" None toLowerCase scenario None None]
    getAllTasks_slicing_gate [of None None toLowerCase scenario None None]
    getAllTasks_slicing_gate [of "Some (Num 1)" "Some (Num 2)" toLowerCase scenario None None
      toUpperCase "\<lambda>m. []" "\<lambda>l off. False"]
  by simp

text \<open>
  C10 as stated has slicing only for positive \<^verbatim>\<open>page\<close> and \<^verbatim>\<open>limit\<close>. With page
  \<^verbatim>\<open>-1\<close> and limit 2 the in-memory store slices all the same: it answers with a
  \<^verbatim>\<open>page\<close> and a \<^verbatim>\<open>totalPages\<close> and with one of the three tasks.
\<close>

theorem getAllTasks_negative_page_counterexample:
  "page (getAllTasks scenario (Some (- 1)) (Some 2) None None) = Some (- 1)
   \<and> totalPages (getAllTasks scenario (Some (- 1)) (Some 2) None None) = Some 2
   \<and> tasks (getAllTasks scenario (Some (- 1)) (Some 2) None None) = [taskC]
   \<and> tasks (getAllTasks scenario None None None None) = [taskC, taskB, taskA]"
  by code_simp

section \<open>Ordering\<close>

text \<open>
  What every list request of the in-memory store returns, before slicing: the tasks
  that pass the filters, newest first, tasks created at the same instant in the order
  in which the collection holds them.
\<close>

lemma filteredTasks_order:
  "sorted_wrt (\<lambda>a b. createdAt b \<le> createdAt a) (filteredTasksWith lc s st se)
   \<and> filter (\<lambda>t. createdAt t = k) (filteredTasksWith lc s st se)
       = filter (\<lambda>t. createdAt t = k) (bySearchWith lc se (byStatusWith lc st s))
   \<and> mset (filteredTasksWith lc s st se) = mset (bySearchWith lc se (byStatusWith lc st s))"
  by (simp add: filteredTasksWith_def sorted_sortCmp stable_sortCmp mset_sortCmp)

text \<open>
  C3. \<^verbatim>\<open>getAllTasks\<close> has no argument for a sort field or a direction, and the
  controller reads none from the request: whatever order the caller asks for, the tasks
  of the scenario come newest first. A caller who chose \<^verbatim>\<open>title\<close>, ascending, would get
  Alpha, Beta, Gamma by the claim.
\<close>

theorem getAllTasks_order_fixed:
  "map title (tasks (getAllTasks scenario None None None None)) = [''Gamma'', ''Beta'', ''Alpha'']
   \<and> map createdAt (tasks (getAllTasks scenario None None None None)) = [3000, 2000, 1000]"
  by code_simp

section \<open>Updating\<close>

text \<open>
  A patch without the keys \<^verbatim>\<open>id\<close> and \<^verbatim>\<open>createdAt\<close> leaves both as they are, replaces
  the fields it has, keeps the others, and the task's \<^verbatim>\<open>updatedAt\<close> becomes the clock
  reading, for the empty patch too.
\<close>

lemma updateTask_patch:
  assumes "findIndex (\<lambda>t. id_f t = i) s = Some k"
    and "p_id u = None" and "p_createdAt u = None"
  shows "fst (updateTask s now i u) =
     Some ((s ! k)\<lparr>title := (case p_title u of None \<Rightarrow> title (s ! k) | Some v \<Rightarrow> v),
       description := (case p_description u of None \<Rightarrow> description (s ! k) | Some v \<Rightarrow> v),
       status := (case p_status u of None \<Rightarrow> status (s ! k) | Some v \<Rightarrow> v),
       updatedAt := now\<rparr>)"
  using assms by (simp add: updateTask_def spread_def)

lemma find_map_keeps_id:
  assumes "\<And>r. id_f (f r) = id_f r"
  shows "find (\<lambda>t. id_f t = i) (map f d) = map_option f (find (\<lambda>t. id_f t = i) d)"
  using assms by (induction d) simp_all

text \<open>
  The SQLite store never changes \<^verbatim>\<open>id\<close> or \<^verbatim>\<open>createdAt\<close>, whatever the patch holds,
  and always sets \<^verbatim>\<open>updatedAt\<close>.
\<close>

lemma db_updateTask_keeps:
  assumes "db_getTaskById d i = Some t"
  shows "fst (db_updateTask d now i u) = Some (setClauses u now t)
    \<and> id_f (setClauses u now t) = id_f t
    \<and> createdAt (setClauses u now t) = createdAt t
    \<and> updatedAt (setClauses u now t) = now"
proof -
  let ?f = "\<lambda>r. if id_f r = i then setClauses u now r else r"
  have keep: "id_f (?f r) = id_f r" for r
    by (simp add: setClauses_def)
  have "id_f t = i"
    using assms by (auto simp: db_getTaskById_def find_Some_iff)
  moreover have "find (\<lambda>t. id_f t = i) (map ?f d) = map_option ?f (find (\<lambda>t. id_f t = i) d)"
    using keep by (rule find_map_keeps_id)
  ultimately show ?thesis
    using assms by (simp add: db_updateTask_def db_getTaskById_def Let_def setClauses_def)
qed

text \<open>
  C4. The spread of the in-memory store copies every key of the patch, \<^verbatim>\<open>id\<close> and
  \<^verbatim>\<open>createdAt\<close> among them: a patch with these two keys changes both fields of task
  A. The SQLite store, given the same patch, writes \<^verbatim>\<open>updatedAt\<close> only and keeps the
  task's \<^verbatim>\<open>id\<close> and \<^verbatim>\<open>createdAt\<close>.
\<close>

theorem updateTask_overwrites_id:
  "fst (updateTask [taskA] 5000 ''a''
      \<lparr>p_id = Some ''z'', p_title = None, p_description = None, p_status = None,
       p_createdAt = Some 0, p_updatedAt = None\<rparr>)
     = Some \<lparr>id_f = ''z'', title = ''Alpha'', description = ''first'', status = PENDING,
         createdAt = 0, updatedAt = 5000\<rparr>
   \<and> fst (db_updateTask [taskA] 5000 ''a''
      \<lparr>p_id = Some ''z'', p_title = None, p_description = None, p_status = None,
       p_createdAt = Some 0, p_updatedAt = None\<rparr>)
     = Some \<lparr>id_f = ''a'', title = ''Alpha'', description = ''first'', status = PENDING,
         createdAt = 1000, updatedAt = 5000\<rparr>"
  by code_simp

section \<open>Creating\<close>

lemma find_append_fresh:
  "i \<notin> id_f ` set s \<Longrightarrow> id_f t = i \<Longrightarrow> find (\<lambda>x. id_f x = i) (s @ [t]) = Some t"
  by (induction s) auto

text \<open>
  A task created under an identifier that no stored task has is the one that
  \<^verbatim>\<open>getTaskById\<close> then finds: it has the title of the request, its description or the
  empty string, its status or \<^verbatim>\<open>PENDING\<close>, and the two clock readings as its
  timestamps.
\<close>

lemma createTask_get:
  assumes "uuid \<notin> id_f ` set s"
  shows "getTaskById (snd (createTask s uuid now1 now2 body)) uuid =
     Some \<lparr>id_f = uuid, title = r_title body,
       description = (case r_description body of None \<Rightarrow> [] | Some d \<Rightarrow> d),
       status = (case r_status body of None \<Rightarrow> PENDING | Some v \<Rightarrow> v),
       createdAt = now1, updatedAt = now2\<rparr>"
proof -
  have "orString (r_description body) [] = (case r_description body of None \<Rightarrow> [] | Some d \<Rightarrow> d)"
    by (simp add: orString_def split: option.splits)
  then show ?thesis
    using assms
    by (simp add: createTask_def addTask_def getTaskById_def find_append_fresh orStatus_def)
qed

text \<open>
  C8. \<^verbatim>\<open>createTask\<close> reads the clock once for \<^verbatim>\<open>createdAt\<close> and once more for
  \<^verbatim>\<open>updatedAt\<close>. When the clock moves on between the two readings, here from 1000 to
  1001, the task that \<^verbatim>\<open>getTaskById\<close> returns has an \<^verbatim>\<open>updatedAt\<close> that is later than
  its \<^verbatim>\<open>createdAt\<close>.
\<close>

theorem createTask_two_clock_readings:
  "getTaskById
     (snd (createTask [] ''u1'' 1000 1001
        \<lparr>r_title = ''Write report'', r_description = None, r_status = None\<rparr>)) ''u1''
     = Some \<lparr>id_f = ''u1'', title = ''Write report'', description = [], status = PENDING,
         createdAt = 1000, updatedAt = 1001\<rparr>"
  by code_simp

section \<open>The two stores side by side\<close>

text \<open>
  C2. Both stores receive task A and are then asked for the tasks whose title
  contains an underscore. The in-memory store finds none, since \<^verbatim>\<open>Alpha\<close> has no
  underscore. The SQLite store puts the search string into a \<^verbatim>\<open>LIKE\<close> pattern as it
  is, where the underscore stands for any character, and returns task A.
\<close>

theorem stores_differ_on_search:
  "addTask [] taskA = (taskA, [taskA])
   \<and> db_addTask [] taskA = Inr (taskA, [taskA])
   \<and> tasks (getAllTasks [taskA] None None None (Some ''_'')) = []
   \<and> total (getAllTasks [taskA] None None None (Some ''_'')) = 0
   \<and> db_getAllTasks uc toISO binds [taskA] None None None (Some ''_'')
       = Inr \<lparr>tasks = [taskA], total = 1, page = None, totalPages = None\<rparr>"
proof -
  have mem: "getAllTasks [taskA] None None None (Some ''_'')
      = \<lparr>tasks = [], total = 0, page = None, totalPages = None\<rparr>"
    by code_simp
  have like: "sqlLike ''%_%'' (title taskA)"
    by code_simp
  have "db_getAllTasks uc toISO binds [taskA] None None None (Some ''_'')
      = Inr \<lparr>tasks = [taskA], total = 1, page = None, totalPages = None\<rparr>"
    using like
    by (simp add: db_getAllTasks_def db_selectAll_def paged_def whereStatus_def
        whereTitleLike_def)
  then show ?thesis
    by (simp add: mem addTask_def db_addTask_def)
qed

end
